theory Spec2Isabelle
  imports Main "HOL-Library.Multiset"
begin

section \<open>Exceptions and results\<close>

text \<open>
  Every Python exception that the modelled functions can meet is a value of \<open>exn\<close>;
  a computation that may raise returns \<open>exn + 'a\<close>, with \<open>Inl\<close> for the raise.
  \<open>HttpError\<close> is the calendar client's own exception class (the one the first
  \<^verbatim>\<open>except\<close> clause of the calendar operations names); the other constructors are
  ordinary subclasses of \<^verbatim>\<open>Exception\<close>. The string is the exception's message.
\<close>

datatype exn =
    HttpError string
  | KeyError string
  | OverflowError string
  | ValidationError string
  | Exception string

text \<open>Python's \<^verbatim>\<open>str(e)\<close>, the text an f-string puts in place of \<^verbatim>\<open>{e}\<close>.
  A \<^verbatim>\<open>KeyError\<close> prints its key between single quotes.\<close>

fun str :: "exn \<Rightarrow> string" where
  "str (HttpError m) = m"
| "str (KeyError k) = [CHR 0x27] @ k @ [CHR 0x27]"
| "str (OverflowError m) = m"
| "str (ValidationError m) = m"
| "str (Exception m) = m"

section \<open>Time\<close>

text \<open>
  Every datetime the resolver compares is offset-aware (the window bounds get
  \<^verbatim>\<open>tzinfo=utc\<close>), and Python compares aware datetimes by their UTC instant. An aware
  datetime is therefore modelled by its instant: a number of microseconds (the resolution
  of \<^verbatim>\<open>datetime\<close>) on the UTC time line. A \<^verbatim>\<open>timedelta\<close> is a signed number
  of microseconds.

  The files \<^verbatim>\<open>gcal.py\<close> and \<^verbatim>\<open>agent.py\<close> use \<^verbatim>\<open>datetime\<close> and the
  classes of \<^verbatim>\<open>models.py\<close> without importing them; the names are read as the
  standard library module and those classes.
\<close>

type_synonym datetime = int
type_synonym timedelta = int
type_synonym interval = "datetime \<times> datetime"

text \<open>
  \<^verbatim>\<open>datetime.timedelta(minutes=m)\<close>. A \<^verbatim>\<open>timedelta\<close> holds between
  \<open>-999999999\<close> days and \<open>999999999\<close> days, 23:59:59.999999; outside of this the
  constructor raises \<^verbatim>\<open>OverflowError\<close>.
\<close>

definition timedelta_minutes :: "int \<Rightarrow> exn + timedelta" where
  "timedelta_minutes m =
     (if - 1439999998560 \<le> m \<and> m \<le> 1439999999999 then Inr (m * 60000000)
      else Inl (OverflowError ''timedelta out of range''))"

text \<open>A calendar day is the number of days since the first day of the time line;
  \<open>at_time d h mi s\<close> is the instant of \<open>h:mi:s\<close> UTC on that day.\<close>

definition at_time :: "int \<Rightarrow> int \<Rightarrow> int \<Rightarrow> int \<Rightarrow> datetime" where
  "at_time d h mi s = (((d * 24 + h) * 60 + mi) * 60 + s) * 1000000"

section \<open>Records of \<^verbatim>\<open>models.py\<close>\<close>

text \<open>The two calendar operations have argument and result classes with fields of the
  same names; the fields of the earlier record are written with the record's name.\<close>

record RetrieveCalendarEventsArgs =
  start_date :: string
  end_date :: string

record FindAvailableSlotsArgs =
  start_date :: string
  end_date :: string
  duration_minutes :: int
  attendee_emails :: "string list"

record CalendarEvent =
  title :: string
  event_start :: string
  event_end :: string

record RetrieveCalendarEventsOutput =
  events :: "CalendarEvent list"
  status :: "string option"
  error :: "string option"

text \<open>
  A \<^verbatim>\<open>TimeSlot\<close> holds the two bounds as ISO strings, \<^verbatim>\<open>isoformat()\<close> of the
  datetimes; the model keeps the datetimes themselves.
\<close>

record TimeSlot =
  start_time :: datetime
  end_time :: datetime

record FindAvailableSlotsOutput =
  slots :: "TimeSlot list"
  status :: "string option"
  error :: "string option"

section \<open>The calendar collaborator\<close>

text \<open>
  One entry of the free/busy answer's \<^verbatim>\<open>calendars\<close> dictionary.
  \<open>errors\<close> is the truth value of \<^verbatim>\<open>data.get('errors')\<close>. Each element of
  \<open>busy\<close> is the outcome of building the pair
  \<^verbatim>\<open>(fromisoformat(interval['start']), fromisoformat(interval['end']))\<close>:
  the two instants, or the exception raised on the way (a missing key, a string that is
  not ISO). A string without UTC offset parses to a naive datetime, which Python refuses
  to compare with the aware window bounds by raising \<^verbatim>\<open>TypeError\<close> at the first
  comparison; since that ends in the same \<^verbatim>\<open>except\<close> clause, such an interval
  is also given as \<open>Inl\<close>.
\<close>

record calendar =
  errors :: bool
  busy :: "(exn + interval) list"

text \<open>
  One item of the answer of \<^verbatim>\<open>events().list(...)\<close>: a dictionary in which
  \<^verbatim>\<open>summary\<close>, \<^verbatim>\<open>start\<close> and \<^verbatim>\<open>end\<close> may be missing, and in which
  a start or an end has a \<^verbatim>\<open>dateTime\<close>, a \<^verbatim>\<open>date\<close>, both or none.
\<close>

record event_time =
  dateTime :: "string option"
  date :: "string option"

record event =
  summary :: "string option"
  start_of :: "event_time option"
  end_of :: "event_time option"

text \<open>
  The service handle, as far as the two operations use it.
  \<open>events_list\<close> is \<^verbatim>\<open>events().list(calendarId="primary", timeMin=..., timeMax=...,
  singleEvents=True, orderBy="startTime").execute()\<close> followed by
  \<^verbatim>\<open>.get("items", [])\<close>.
  \<open>freebusy_query\<close> is \<^verbatim>\<open>freebusy().query(body=...).execute()\<close> followed by
  \<^verbatim>\<open>.get('calendars', {})\<close>, applied to \<open>timeMin\<close>, \<open>timeMax\<close> and the
  attendee list; the answer is a dictionary in insertion order, an association list.
\<close>

record gcal_service =
  events_list :: "datetime \<Rightarrow> datetime \<Rightarrow> exn + event list"
  freebusy_query :: "datetime \<Rightarrow> datetime \<Rightarrow> string list \<Rightarrow> exn + (string \<times> calendar) list"

section \<open>\<^verbatim>\<open>retrieve_calendar_events\<close> (gcal.py)\<close>

text \<open>\<^verbatim>\<open>d.get("dateTime", d.get("date"))\<close>\<close>

definition get_dateTime_or_date :: "event_time \<Rightarrow> string option" where
  "get_dateTime_or_date d = (case dateTime d of Some s \<Rightarrow> Some s | None \<Rightarrow> date d)"

text \<open>Lines 89-93, for one item. The three subscripts raise \<^verbatim>\<open>KeyError\<close> in the
  order of the keyword arguments; then the constructor refuses a missing string.\<close>

definition format_event :: "event \<Rightarrow> exn + CalendarEvent" where
  "format_event ev =
     (case summary ev of None \<Rightarrow> Inl (KeyError ''summary'') | Some t \<Rightarrow>
     (case start_of ev of None \<Rightarrow> Inl (KeyError ''start'') | Some st \<Rightarrow>
     (case end_of ev of None \<Rightarrow> Inl (KeyError ''end'') | Some en \<Rightarrow>
     (case get_dateTime_or_date st of
        None \<Rightarrow> Inl (ValidationError ''start: Input should be a valid string'')
      | Some s \<Rightarrow>
     (case get_dateTime_or_date en of
        None \<Rightarrow> Inl (ValidationError ''end: Input should be a valid string'')
      | Some e \<Rightarrow> Inr \<lparr>title = t, event_start = s, event_end = e\<rparr>)))))"

fun formatted_events :: "event list \<Rightarrow> exn + CalendarEvent list" where
  "formatted_events [] = Inr []"
| "formatted_events (ev # rest) =
     (case format_event ev of Inl e \<Rightarrow> Inl e | Inr c \<Rightarrow>
     (case formatted_events rest of Inl e \<Rightarrow> Inl e | Inr cs \<Rightarrow> Inr (c # cs)))"

text \<open>
  The body of the \<^verbatim>\<open>try\<close> (lines 81-95). \<open>fromisoformat\<close> stands for
  \<^verbatim>\<open>datetime.datetime.fromisoformat(s + "T00:00:00Z")\<close> reduced to its date: the day
  of an ISO date, or the \<^verbatim>\<open>ValueError\<close>.
\<close>

definition retrieve_calendar_events_body ::
  "(string \<Rightarrow> exn + int) \<Rightarrow> gcal_service \<Rightarrow> RetrieveCalendarEventsArgs \<Rightarrow> exn + RetrieveCalendarEventsOutput" where
  "retrieve_calendar_events_body fromisoformat service args =
     (case fromisoformat (RetrieveCalendarEventsArgs.start_date args) of Inl e \<Rightarrow> Inl e | Inr d1 \<Rightarrow>
     (case fromisoformat (RetrieveCalendarEventsArgs.end_date args) of Inl e \<Rightarrow> Inl e | Inr d2 \<Rightarrow>
     (case events_list service (at_time d1 0 0 0) (at_time d2 23 59 59) of
        Inl e \<Rightarrow> Inl e
      | Inr items \<Rightarrow>
          if items = []
          then Inr \<lparr>events = [], RetrieveCalendarEventsOutput.status = Some ''No upcoming events found.'',
                    RetrieveCalendarEventsOutput.error = None\<rparr>
          else (case formatted_events items of
                  Inl e \<Rightarrow> Inl e
                | Inr cs \<Rightarrow> Inr \<lparr>events = cs, RetrieveCalendarEventsOutput.status = None,
                                   RetrieveCalendarEventsOutput.error = None\<rparr>))))"

text \<open>The two \<^verbatim>\<open>except\<close> clauses (lines 96-99).\<close>

definition retrieve_calendar_events ::
  "(string \<Rightarrow> exn + int) \<Rightarrow> gcal_service \<Rightarrow> RetrieveCalendarEventsArgs \<Rightarrow> RetrieveCalendarEventsOutput" where
  "retrieve_calendar_events fromisoformat service args =
     (case retrieve_calendar_events_body fromisoformat service args of
        Inr out \<Rightarrow> out
      | Inl (HttpError m) \<Rightarrow>
          \<lparr>events = [], RetrieveCalendarEventsOutput.status = None,
           RetrieveCalendarEventsOutput.error = Some (''An API error occurred: '' @ m)\<rparr>
      | Inl e \<Rightarrow>
          \<lparr>events = [], RetrieveCalendarEventsOutput.status = None,
           RetrieveCalendarEventsOutput.error = Some (''An unexpected error occurred: '' @ str e)\<rparr>)"

section \<open>\<^verbatim>\<open>find_available_slots\<close> (gcal.py)\<close>

text \<open>Lines 110-116: the loop over the calendars. A calendar with errors is skipped
  (\<^verbatim>\<open>continue\<close>); the intervals of the others are appended in order. The first
  interval that fails to parse raises.\<close>

fun parse_busy :: "(exn + interval) list \<Rightarrow> exn + interval list" where
  "parse_busy [] = Inr []"
| "parse_busy (Inl e # rest) = Inl e"
| "parse_busy (Inr i # rest) =
     (case parse_busy rest of Inl e \<Rightarrow> Inl e | Inr is \<Rightarrow> Inr (i # is))"

fun all_busy_intervals :: "(string \<times> calendar) list \<Rightarrow> exn + interval list" where
  "all_busy_intervals [] = Inr []"
| "all_busy_intervals ((cal_id, data) # rest) =
     (if errors data then all_busy_intervals rest
      else (case parse_busy (busy data) of
              Inl e \<Rightarrow> Inl e
            | Inr is \<Rightarrow> (case all_busy_intervals rest of
                           Inl e \<Rightarrow> Inl e
                         | Inr js \<Rightarrow> Inr (is @ js))))"

text \<open>The warnings printed on the way (line 113), one for each skipped calendar.
  They go to standard output, not to the result.\<close>

definition printed_warnings :: "(string \<times> calendar) list \<Rightarrow> string list" where
  "printed_warnings cals =
     map (\<lambda>(cal_id, data). ''Warning: Could not retrieve free/busy for '' @ cal_id @ ''.'')
         (filter (\<lambda>(cal_id, data). errors data) cals)"

text \<open>Line 118: \<^verbatim>\<open>sort(key=lambda x: x[0])\<close>. Python's sort is stable, as is
  \<open>sort_key\<close>; the key is the start alone.\<close>

definition sort_busy :: "interval list \<Rightarrow> interval list" where
  "sort_busy xs = sort_key fst xs"

text \<open>Lines 119-128: the sweep. \<open>merge_run\<close> is the \<^verbatim>\<open>for\<close> loop with the
  current run in its first argument; a closed run is appended to \<^verbatim>\<open>merged_busy\<close>
  before the runs that follow it.\<close>

fun merge_run :: "interval \<Rightarrow> interval list \<Rightarrow> interval list" where
  "merge_run (current_start, current_end) [] = [(current_start, current_end)]"
| "merge_run (current_start, current_end) ((next_start, next_end) # rest) =
     (if next_start < current_end
      then merge_run (current_start, max current_end next_end) rest
      else (current_start, current_end) # merge_run (next_start, next_end) rest)"

fun merged_busy :: "interval list \<Rightarrow> interval list" where
  "merged_busy [] = []"
| "merged_busy (first # rest) = merge_run first rest"

text \<open>The test of lines 133 and 137:
  \<^verbatim>\<open>b > a and (b - a) >= datetime.timedelta(minutes=m)\<close>. The \<^verbatim>\<open>timedelta\<close>
  is only built when the first conjunct holds.\<close>

definition long_enough :: "int \<Rightarrow> datetime \<Rightarrow> datetime \<Rightarrow> exn + bool" where
  "long_enough m a b =
     (if b > a
      then (case timedelta_minutes m of Inl e \<Rightarrow> Inl e | Inr d \<Rightarrow> Inr (b - a \<ge> d))
      else Inr False)"

text \<open>Lines 130-138: the walk over the obstacles, with the cursor
  \<^verbatim>\<open>last_busy_end\<close>, and the last test against the end of the window.\<close>

fun available_slots :: "int \<Rightarrow> datetime \<Rightarrow> datetime \<Rightarrow> interval list \<Rightarrow> exn + TimeSlot list" where
  "available_slots m last_busy_end end_time_dt [] =
     (case long_enough m last_busy_end end_time_dt of
        Inl e \<Rightarrow> Inl e
      | Inr q \<Rightarrow> Inr (if q then [\<lparr>start_time = last_busy_end, end_time = end_time_dt\<rparr>] else []))"
| "available_slots m last_busy_end end_time_dt ((busy_start, busy_end) # rest) =
     (case long_enough m last_busy_end busy_start of
        Inl e \<Rightarrow> Inl e
      | Inr q \<Rightarrow>
          (case available_slots m (max last_busy_end busy_end) end_time_dt rest of
             Inl e \<Rightarrow> Inl e
           | Inr ss \<Rightarrow>
               Inr ((if q then [\<lparr>start_time = last_busy_end, end_time = busy_start\<rparr>] else []) @ ss)))"

text \<open>Lines 118-138 together: the resolver proper, from the union of the busy intervals
  to the free slots.\<close>

definition resolve :: "int \<Rightarrow> datetime \<Rightarrow> datetime \<Rightarrow> interval list \<Rightarrow> exn + TimeSlot list" where
  "resolve m start_time_dt end_time_dt all =
     available_slots m start_time_dt end_time_dt (merged_busy (sort_busy all))"

text \<open>
  The body of the \<^verbatim>\<open>try\<close>. \<open>fromisoformat\<close> stands for
  \<^verbatim>\<open>datetime.datetime.fromisoformat(s + "T00:00:00")\<close> reduced to its date: it gives
  the day of an ISO date, or the \<^verbatim>\<open>ValueError\<close>. The window runs from 00:00:00 of
  the start day to 23:59:59 of the end day, both UTC.
\<close>

definition find_available_slots_body ::
  "(string \<Rightarrow> exn + int) \<Rightarrow> gcal_service \<Rightarrow> FindAvailableSlotsArgs \<Rightarrow> exn + FindAvailableSlotsOutput" where
  "find_available_slots_body fromisoformat service args =
     (case fromisoformat (start_date args) of Inl e \<Rightarrow> Inl e | Inr d1 \<Rightarrow>
     (case fromisoformat (end_date args) of Inl e \<Rightarrow> Inl e | Inr d2 \<Rightarrow>
     (let start_time_dt = at_time d1 0 0 0;
          end_time_dt = at_time d2 23 59 59
      in
     (case freebusy_query service start_time_dt end_time_dt (attendee_emails args) of
        Inl e \<Rightarrow> Inl e | Inr calendars \<Rightarrow>
     (case all_busy_intervals calendars of Inl e \<Rightarrow> Inl e | Inr all \<Rightarrow>
     (case resolve (duration_minutes args) start_time_dt end_time_dt all of
        Inl e \<Rightarrow> Inl e
      | Inr found \<Rightarrow>
          Inr (if found \<noteq> [] then \<lparr>slots = found, status = None, error = None\<rparr>
               else \<lparr>slots = [], status = Some ''No common slots found.'', error = None\<rparr>)))))))"

text \<open>The two \<^verbatim>\<open>except\<close> clauses (lines 141-144) turn every exception of the body
  into a result with the error field set; the other fields keep their defaults.\<close>

definition find_available_slots ::
  "(string \<Rightarrow> exn + int) \<Rightarrow> gcal_service \<Rightarrow> FindAvailableSlotsArgs \<Rightarrow> FindAvailableSlotsOutput" where
  "find_available_slots fromisoformat service args =
     (case find_available_slots_body fromisoformat service args of
        Inr out \<Rightarrow> out
      | Inl (HttpError m) \<Rightarrow>
          \<lparr>slots = [], status = None, error = Some (''An API error occurred: '' @ m)\<rparr>
      | Inl e \<Rightarrow>
          \<lparr>slots = [], status = None, error = Some (''An unexpected error occurred: '' @ str e)\<rparr>)"

section \<open>The dispatcher: \<^verbatim>\<open>run_conversation\<close> (agent.py)\<close>

text \<open>An invocation request of the model: \<^verbatim>\<open>tool_call.id\<close>,
  \<^verbatim>\<open>tool_call.function.name\<close> and \<^verbatim>\<open>tool_call.function.arguments\<close>.\<close>

record tool_call =
  call_id :: string
  function_name :: string
  arguments :: string

text \<open>The message of a completion. \<open>tool_calls\<close> is \<^verbatim>\<open>None\<close> or a list.\<close>

record response_message =
  content :: "string option"
  tool_calls :: "tool_call list option"

text \<open>
  The conversation holds the caller's dictionaries (role and content), the response
  message appended at line 27, and the tool results appended at lines 44 and 47
  (\<^verbatim>\<open>tool_call_id\<close>, \<^verbatim>\<open>name\<close>, \<^verbatim>\<open>content\<close>; the role is
  \<^verbatim>\<open>"tool"\<close>).
\<close>

datatype message =
    Dict string string
  | Response response_message
  | Tool string string string

text \<open>
  The three shapes of the call at lines 35-40: with the user map, with the calendar
  service, with the arguments alone. The agent's user map and service are fixed, so the
  handler is given the shape only.
\<close>

datatype call_shape = With_user_map | With_gcal_service | Args_only

text \<open>
  One entry of \<^verbatim>\<open>self.tools\<close>. \<open>args_model\<close> is
  \<^verbatim>\<open>args_model.model_validate_json\<close>: the validated arguments, or the exception for a
  payload that is not JSON or does not fit the schema. \<open>tool_function\<close> is the handler
  followed by \<^verbatim>\<open>model_dump_json()\<close>: the serialised result, or the exception raised.
\<close>

record 'a tool =
  tool_function :: "call_shape \<Rightarrow> 'a \<Rightarrow> exn + string"
  args_model :: "string \<Rightarrow> exn + 'a"

text \<open>
  The agent. \<open>create\<close> is \<^verbatim>\<open>self.client.chat.completions.create(...)\<close> followed by
  \<^verbatim>\<open>.choices[0].message\<close>, applied to the conversation and to the tool definitions
  offered (\<open>None\<close> when the call has no \<^verbatim>\<open>tools\<close> argument); a definition is
  given by the name of its tool. \<open>tools\<close> is the catalog, a dictionary with distinct keys
  in insertion order.
\<close>

record 'a agent =
  create :: "message list \<Rightarrow> string list option \<Rightarrow> exn + response_message"
  tools :: "(string \<times> 'a tool) list"

definition get_tool_definitions :: "'a agent \<Rightarrow> string list" where
  "get_tool_definitions ag = map fst (tools ag)"

definition call_shape_of :: "string \<Rightarrow> call_shape" where
  "call_shape_of name =
     (if name = ''parse_email'' then With_user_map
      else if name \<in> set [''retrieve_calendar_events'', ''find_available_slots'']
      then With_gcal_service
      else Args_only)"

text \<open>The message of line 47, with
  \<^verbatim>\<open>f'{{"error": "Failed to execute tool: {e}"}}'\<close> as content.\<close>

definition error_result :: "tool_call \<Rightarrow> exn \<Rightarrow> message" where
  "error_result tc e =
     Tool (call_id tc) (function_name tc)
       (''{'' @ [CHR 0x22] @ ''error'' @ [CHR 0x22] @ '': '' @ [CHR 0x22]
        @ ''Failed to execute tool: '' @ str e @ [CHR 0x22] @ ''}'')"

text \<open>Lines 31-47: the \<^verbatim>\<open>try\<close> and its \<^verbatim>\<open>except\<close>, for an invocation
  whose tool has been found. It always ends by appending one message, which is returned
  here.\<close>

definition execute_tool :: "'a tool \<Rightarrow> tool_call \<Rightarrow> message" where
  "execute_tool t tc =
     (case args_model t (arguments tc) of
        Inl e \<Rightarrow> error_result tc e
      | Inr function_args \<Rightarrow>
          (case tool_function t (call_shape_of (function_name tc)) function_args of
             Inl e \<Rightarrow> error_result tc e
           | Inr content_str \<Rightarrow> Tool (call_id tc) (function_name tc) content_str))"

text \<open>
  Lines 28-47: the loop over the invocations. The subscript
  \<^verbatim>\<open>self.tools[function_name]\<close> of line 30 stands before the \<^verbatim>\<open>try\<close>: for a
  name that is not a key its \<^verbatim>\<open>KeyError\<close> leaves the loop and the function. The
  loop returns the exception that left it, if any, and the conversation as it then is
  (the list is changed in place).
\<close>

fun process_tool_calls :: "'a agent \<Rightarrow> tool_call list \<Rightarrow> message list \<Rightarrow> exn option \<times> message list" where
  "process_tool_calls ag [] messages = (None, messages)"
| "process_tool_calls ag (tc # rest) messages =
     (case map_of (tools ag) (function_name tc) of
        None \<Rightarrow> (Some (KeyError (function_name tc)), messages)
      | Some t \<Rightarrow> process_tool_calls ag rest (messages @ [execute_tool t tc]))"

text \<open>
  What a call of \<^verbatim>\<open>run_conversation\<close> leaves behind: the message returned or the
  exception raised, the conversation (the caller's list, changed in place), and the
  submissions made to the model, in order, each with the conversation sent and the tool
  definitions offered.
\<close>

record outcome =
  returned :: "exn + response_message"
  conversation :: "message list"
  submissions :: "(message list \<times> string list option) list"

definition run_conversation :: "'a agent \<Rightarrow> message list \<Rightarrow> outcome" where
  "run_conversation ag messages =
     (let tool_defs = get_tool_definitions ag;
          first = (messages, Some tool_defs)
      in
      case create ag messages (Some tool_defs) of
        Inl e \<Rightarrow> \<lparr>returned = Inl e, conversation = messages, submissions = [first]\<rparr>
      | Inr response_message \<Rightarrow>
          (case tool_calls response_message of
             None \<Rightarrow>
               \<lparr>returned = Inr response_message, conversation = messages, submissions = [first]\<rparr>
           | Some [] \<Rightarrow>
               \<lparr>returned = Inr response_message, conversation = messages, submissions = [first]\<rparr>
           | Some (tc # rest) \<Rightarrow>
               (case process_tool_calls ag (tc # rest) (messages @ [Response response_message]) of
                  (Some e, messages') \<Rightarrow>
                    \<lparr>returned = Inl e, conversation = messages', submissions = [first]\<rparr>
                | (None, messages') \<Rightarrow>
                    \<lparr>returned = create ag messages' None, conversation = messages',
                     submissions = [first, (messages', None)]\<rparr>)))"

section \<open>Notions used in the statements\<close>

text \<open>Intervals and slots are half-open: an instant is busy when it lies in one of the
  busy intervals, and in a slot when it is at or after the start and before the end.\<close>

definition busy_at :: "interval list \<Rightarrow> datetime \<Rightarrow> bool" where
  "busy_at xs t = list_ex (\<lambda>(s, e). s \<le> t \<and> t < e) xs"

definition inside :: "TimeSlot \<Rightarrow> datetime \<Rightarrow> bool" where
  "inside slot t = (start_time slot \<le> t \<and> t < end_time slot)"

definition as_slot :: "interval \<Rightarrow> TimeSlot" where
  "as_slot g = \<lparr>start_time = fst g, end_time = snd g\<rparr>"

text \<open>The gaps that the walk of lines 130-138 examines: for each obstacle the pair of the
  cursor and the obstacle's start, and at last the pair of the cursor and the end of the
  window. The cursor moves as \<^verbatim>\<open>last_busy_end\<close> does at line 135.\<close>

fun gaps :: "datetime \<Rightarrow> datetime \<Rightarrow> interval list \<Rightarrow> interval list" where
  "gaps last_busy_end end_time_dt [] = [(last_busy_end, end_time_dt)]"
| "gaps last_busy_end end_time_dt ((busy_start, busy_end) # rest) =
     (last_busy_end, busy_start) # gaps (max last_busy_end busy_end) end_time_dt rest"

section \<open>Concrete inputs\<close>

text \<open>A date parser that knows two dates, the first and the second day of the time
  line, and raises on every other string.\<close>

definition two_days :: "string \<Rightarrow> exn + int" where
  "two_days s =
     (if s = ''0001-01-01'' then Inr 0
      else if s = ''0001-01-02'' then Inr 1
      else Inl (Exception ''Invalid isoformat string''))"

text \<open>A service whose free/busy answer is the given dictionary, whatever the query, and
  which lists the given events.\<close>

definition answering :: "event list \<Rightarrow> (string \<times> calendar) list \<Rightarrow> gcal_service" where
  "answering items calendars =
     \<lparr>events_list = (\<lambda>time_min time_max. Inr items),
      freebusy_query = (\<lambda>time_min time_max emails. Inr calendars)\<rparr>"

text \<open>A service whose every call raises the given exception.\<close>

definition failing :: "exn \<Rightarrow> gcal_service" where
  "failing e =
     \<lparr>events_list = (\<lambda>time_min time_max. Inl e),
      freebusy_query = (\<lambda>time_min time_max emails. Inl e)\<rparr>"

text \<open>A search on the first day for the two attendees of the spec's scenario A.\<close>

definition first_day :: "int \<Rightarrow> FindAvailableSlotsArgs" where
  "first_day m =
     \<lparr>start_date = ''0001-01-01'', end_date = ''0001-01-01'', duration_minutes = m,
      attendee_emails = [''p1@example.com'', ''p2@example.com'']\<rparr>"

text \<open>Scenario A: the first attendee is busy from 09:00 to 10:00, the second from 09:30
  to 11:00.\<close>

definition scenario_A :: "(string \<times> calendar) list" where
  "scenario_A =
     [(''p1@example.com'', \<lparr>errors = False, busy = [Inr (at_time 0 9 0 0, at_time 0 10 0 0)]\<rparr>),
      (''p2@example.com'', \<lparr>errors = False, busy = [Inr (at_time 0 9 30 0, at_time 0 11 0 0)]\<rparr>)]"

text \<open>A tool whose arguments are valid when the payload starts with an opening brace,
  and whose handler raises on the arguments \<open>{raise}\<close>.\<close>

definition sample_tool :: "string tool" where
  "sample_tool =
     \<lparr>tool_function = (\<lambda>shape function_args.
        if function_args = ''{raise}'' then Inl (Exception ''handler failed'') else Inr ''{}''),
      args_model = (\<lambda>raw.
        case raw of
          [] \<Rightarrow> Inl (ValidationError ''Invalid JSON'')
        | c # cs \<Rightarrow> if c = CHR ''{'' then Inr raw else Inl (ValidationError ''Invalid JSON''))\<rparr>"

text \<open>An agent with \<open>sample_tool\<close> registered as \<open>parse_email\<close>, whose model
  answers a submission that offers tools with the given invocations, and a submission
  without tools with a plain message.\<close>

definition sample_agent :: "tool_call list option \<Rightarrow> string agent" where
  "sample_agent calls =
     \<lparr>create = (\<lambda>messages tool_defs.
        case tool_defs of
          Some defs \<Rightarrow> Inr \<lparr>content = None, tool_calls = calls\<rparr>
        | None \<Rightarrow> Inr \<lparr>content = Some ''done'', tool_calls = None\<rparr>),
      tools = [(''parse_email'', sample_tool)]\<rparr>"

text \<open>A round of three invocations of the registered tool: a payload that is not JSON,
  arguments on which the handler raises, and arguments that succeed.\<close>

definition three_calls :: "tool_call list" where
  "three_calls =
     [\<lparr>call_id = ''call_1'', function_name = ''parse_email'', arguments = ''not json''\<rparr>,
      \<lparr>call_id = ''call_2'', function_name = ''parse_email'', arguments = ''{raise}''\<rparr>,
      \<lparr>call_id = ''call_3'', function_name = ''parse_email'', arguments = ''{}''\<rparr>]"

section \<open>The sweep merges overlapping intervals\<close>

lemma busy_at_Nil: "busy_at [] t = False" by (simp add: busy_at_def)
lemma busy_at_Cons: "busy_at ((s, e) # xs) t = ((s \<le> t \<and> t < e) \<or> busy_at xs t)"
  by (simp add: busy_at_def)
lemma busy_at_set: "busy_at xs t = (\<exists>(s, e) \<in> set xs. s \<le> t \<and> t < e)"
  by (simp add: busy_at_def list_ex_iff)

lemma merge_run_starts:
  "fst ` set (merge_run r rest) \<subseteq> insert (fst r) (fst ` set rest)"
proof (induction r rest rule: merge_run.induct)
  case (1 cs ce)
  then show ?case by simp
next
  case (2 cs ce ns ne rest)
  then show ?case by (auto split: if_splits)
qed

lemma merge_run_valid:
  "fst r < snd r \<Longrightarrow> \<forall>x \<in> set rest. fst x < snd x \<Longrightarrow> \<forall>x \<in> set (merge_run r rest). fst x < snd x"
proof (induction r rest rule: merge_run.induct)
  case (1 cs ce)
  then show ?case by simp
next
  case (2 cs ce ns ne rest)
  then show ?case by (auto split: if_splits)
qed

lemma merge_run_separated:
  "sorted (map fst (r # rest)) \<Longrightarrow> sorted_wrt (\<lambda>a b. snd a \<le> fst b) (merge_run r rest)"
proof (induction r rest rule: merge_run.induct)
  case (1 cs ce)
  then show ?case by simp
next
  case (2 cs ce ns ne rest)
  show ?case
  proof (cases "ns < ce")
    case True
    with 2 show ?thesis by auto
  next
    case False
    have "\<forall>b \<in> set (merge_run (ns, ne) rest). ce \<le> fst b"
    proof
      fix b assume "b \<in> set (merge_run (ns, ne) rest)"
      then have "fst b \<in> insert ns (fst ` set rest)"
        using merge_run_starts [of "(ns, ne)" rest] by auto
      with 2(3) False show "ce \<le> fst b" by auto
    qed
    with 2 False show ?thesis by auto
  qed
qed

lemma merge_run_busy_at:
  "sorted (map fst (r # rest)) \<Longrightarrow> busy_at (merge_run r rest) t = busy_at (r # rest) t"
proof (induction r rest rule: merge_run.induct)
  case (1 cs ce)
  then show ?case by simp
next
  case (2 cs ce ns ne rest)
  show ?case
  proof (cases "ns < ce")
    case True
    with 2 have "busy_at (merge_run (cs, ce) ((ns, ne) # rest)) t = busy_at ((cs, max ce ne) # rest) t"
      by auto
    also have "\<dots> = busy_at ((cs, ce) # (ns, ne) # rest) t"
      using True 2(3) by (auto simp: busy_at_Cons)
    finally show ?thesis .
  next
    case False
    with 2 show ?thesis by (auto simp: busy_at_Cons)
  qed
qed

lemma merged_busy_starts: "fst ` set (merged_busy ys) \<subseteq> fst ` set ys"
  using merge_run_starts by (cases ys) auto

lemma merged_busy_valid:
  "\<forall>x \<in> set ys. fst x < snd x \<Longrightarrow> \<forall>x \<in> set (merged_busy ys). fst x < snd x"
  using merge_run_valid by (cases ys) auto

lemma merged_busy_separated:
  "sorted (map fst ys) \<Longrightarrow> sorted_wrt (\<lambda>a b. snd a \<le> fst b) (merged_busy ys)"
  using merge_run_separated by (cases ys) auto

lemma merged_busy_busy_at:
  "sorted (map fst ys) \<Longrightarrow> busy_at (merged_busy ys) t = busy_at ys t"
  using merge_run_busy_at by (cases ys) auto

lemma sort_busy_sorted: "sorted (map fst (sort_busy xs))"
  by (simp add: sort_busy_def)

lemma sort_busy_set: "set (sort_busy xs) = set xs"
  by (simp add: sort_busy_def)

lemma sort_busy_busy_at: "busy_at (sort_busy xs) t = busy_at xs t"
  by (simp add: busy_at_set sort_busy_set)

section \<open>The walk emits the long gaps\<close>

lemma long_enough_Inr:
  "timedelta_minutes m = Inr d \<Longrightarrow> long_enough m a b = Inr (a < b \<and> d \<le> b - a)"
  by (simp add: long_enough_def)

lemma long_enough_Inl:
  "timedelta_minutes m = Inl e \<Longrightarrow> long_enough m a b = (if a < b then Inl e else Inr False)"
  by (simp add: long_enough_def)

lemma available_slots_gaps:
  "timedelta_minutes m = Inr d \<Longrightarrow>
   available_slots m c we L =
     Inr (map as_slot (filter (\<lambda>(a, b). a < b \<and> d \<le> b - a) (gaps c we L)))"
proof (induction L arbitrary: c)
  case Nil
  then show ?case by (simp add: long_enough_Inr as_slot_def)
next
  case (Cons x L)
  obtain bs be where x: "x = (bs, be)" by (cases x)
  show ?case using Cons by (simp add: x long_enough_Inr as_slot_def)
qed

lemma available_slots_overflow:
  "timedelta_minutes m = Inl e \<Longrightarrow> available_slots m c we L = Inr ss \<Longrightarrow> ss = []"
proof (induction L arbitrary: c ss)
  case Nil
  then show ?case by (auto simp: long_enough_Inl split: if_splits)
next
  case (Cons x L)
  obtain bs be where x: "x = (bs, be)" by (cases x)
  from Cons.prems show ?case
    by (auto simp: x long_enough_Inl split: if_splits sum.splits dest: Cons.IH)
qed

lemma gaps_after_cursor: "(a, b) \<in> set (gaps c we L) \<Longrightarrow> c \<le> a"
proof (induction L arbitrary: c)
  case Nil
  then show ?case by simp
next
  case (Cons x L)
  obtain bs be where x: "x = (bs, be)" by (cases x)
  from Cons.prems show ?case by (auto simp: x dest: Cons.IH)
qed

lemma gaps_end: "(a, b) \<in> set (gaps c we L) \<Longrightarrow> b = we \<or> b \<in> fst ` set L"
proof (induction L arbitrary: c)
  case Nil
  then show ?case by simp
next
  case (Cons x L)
  obtain bs be where x: "x = (bs, be)" by (cases x)
  from Cons.prems show ?case by (auto simp: x dest: Cons.IH)
qed

lemma gaps_ordered:
  "\<forall>x \<in> set L. fst x < snd x \<Longrightarrow> sorted_wrt (\<lambda>g h. snd g < fst h) (gaps c we L)"
proof (induction L arbitrary: c)
  case Nil
  then show ?case by simp
next
  case (Cons x L)
  obtain bs be where x: "x = (bs, be)" by (cases x)
  have "\<forall>h \<in> set (gaps (max c be) we L). bs < fst h"
  proof
    fix h assume "h \<in> set (gaps (max c be) we L)"
    then have "max c be \<le> fst h"
      using gaps_after_cursor [of "fst h" "snd h" "max c be" we L] by simp
    with Cons.prems x show "bs < fst h" by simp
  qed
  with Cons show ?case by (simp add: x)
qed

lemma gaps_free:
  "\<forall>x \<in> set L. fst x < snd x \<Longrightarrow> sorted_wrt (\<lambda>a b. snd a \<le> fst b) L \<Longrightarrow>
   (a, b) \<in> set (gaps c we L) \<Longrightarrow> a \<le> t \<Longrightarrow> t < b \<Longrightarrow> \<not> busy_at L t"
proof (induction L arbitrary: c)
  case Nil
  then show ?case by (simp add: busy_at_Nil)
next
  case (Cons x L)
  obtain bs be where x: "x = (bs, be)" by (cases x)
  from Cons.prems(3) consider "(a, b) = (c, bs)" | "(a, b) \<in> set (gaps (max c be) we L)"
    by (auto simp: x)
  then show ?case
  proof cases
    case 1
    have "\<forall>y \<in> set L. t < fst y" using Cons.prems 1 x by fastforce
    then have "\<not> busy_at L t" by (fastforce simp: busy_at_set)
    with 1 Cons.prems show ?thesis by (simp add: x busy_at_Cons)
  next
    case 2
    then have "max c be \<le> a" by (rule gaps_after_cursor)
    moreover have "\<not> busy_at L t" using Cons.IH [OF _ _ 2] Cons.prems by simp
    ultimately show ?thesis using Cons.prems by (simp add: x busy_at_Cons)
  qed
qed

lemma gaps_complete:
  "\<forall>x \<in> set L. fst x < snd x \<Longrightarrow> c \<le> a \<Longrightarrow> a < b \<Longrightarrow> b \<le> we \<Longrightarrow>
   \<forall>t. a \<le> t \<and> t < b \<longrightarrow> \<not> busy_at L t \<Longrightarrow>
   \<exists>g \<in> set (gaps c we L). fst g \<le> a \<and> b \<le> snd g"
proof (induction L arbitrary: c)
  case Nil
  then show ?case by simp
next
  case (Cons x L)
  obtain bs be where x: "x = (bs, be)" by (cases x)
  have valid: "bs < be" using Cons.prems(1) x by simp
  have free: "\<forall>t. a \<le> t \<and> t < b \<longrightarrow> \<not> (bs \<le> t \<and> t < be) \<and> \<not> busy_at L t"
    using Cons.prems(5) by (simp add: x busy_at_Cons)
  have "b \<le> bs \<or> be \<le> a"
  proof (rule ccontr)
    assume "\<not> (b \<le> bs \<or> be \<le> a)"
    then have "a \<le> max a bs \<and> max a bs < b \<and> bs \<le> max a bs \<and> max a bs < be"
      using Cons.prems(3) valid by auto
    with free show False by blast
  qed
  then show ?case
  proof
    assume "b \<le> bs"
    with Cons.prems(2) show ?thesis by (auto simp: x)
  next
    assume "be \<le> a"
    with Cons.prems(2) have "max c be \<le> a" by simp
    from Cons.IH [OF _ this Cons.prems(3,4)] Cons.prems(1) free
    show ?thesis by (auto simp: x)
  qed
qed

section \<open>From the walk to the result of \<^verbatim>\<open>find_available_slots\<close>\<close>

lemma resolve_in_range:
  "timedelta_minutes m = Inr d \<Longrightarrow>
   resolve m ws we all =
     Inr (map as_slot (filter (\<lambda>(a, b). a < b \<and> d \<le> b - a) (gaps ws we (merged_busy (sort_busy all)))))"
  by (simp add: resolve_def available_slots_gaps)

lemma resolve_overflow:
  "timedelta_minutes m = Inl e \<Longrightarrow> resolve m ws we all = Inr ss \<Longrightarrow> ss = []"
  unfolding resolve_def by (rule available_slots_overflow)

lemma slots_of_result:
  assumes "fromisoformat (start_date args) = Inr d1"
    and "fromisoformat (end_date args) = Inr d2"
    and "freebusy_query service (at_time d1 0 0 0) (at_time d2 23 59 59) (attendee_emails args) = Inr calendars"
    and "all_busy_intervals calendars = Inr all"
  shows "slots (find_available_slots fromisoformat service args) =
         (case resolve (duration_minutes args) (at_time d1 0 0 0) (at_time d2 23 59 59) all of
            Inl e \<Rightarrow> [] | Inr found \<Rightarrow> found)"
proof (cases "resolve (duration_minutes args) (at_time d1 0 0 0) (at_time d2 23 59 59) all")
  case (Inl e)
  with assms show ?thesis
    by (cases e) (simp_all add: find_available_slots_def find_available_slots_body_def)
next
  case (Inr found)
  with assms show ?thesis
    by (simp add: find_available_slots_def find_available_slots_body_def)
qed

lemma slots_in_range:
  assumes "fromisoformat (start_date args) = Inr d1"
    and "fromisoformat (end_date args) = Inr d2"
    and "freebusy_query service (at_time d1 0 0 0) (at_time d2 23 59 59) (attendee_emails args) = Inr calendars"
    and "all_busy_intervals calendars = Inr all"
    and "timedelta_minutes (duration_minutes args) = Inr d"
  shows "slots (find_available_slots fromisoformat service args) =
         map as_slot (filter (\<lambda>(a, b). a < b \<and> d \<le> b - a)
           (gaps (at_time d1 0 0 0) (at_time d2 23 59 59) (merged_busy (sort_busy all))))"
  using assms by (simp add: slots_of_result resolve_in_range)

lemma slots_overflow:
  assumes "fromisoformat (start_date args) = Inr d1"
    and "fromisoformat (end_date args) = Inr d2"
    and "freebusy_query service (at_time d1 0 0 0) (at_time d2 23 59 59) (attendee_emails args) = Inr calendars"
    and "all_busy_intervals calendars = Inr all"
    and "timedelta_minutes (duration_minutes args) = Inl e"
  shows "slots (find_available_slots fromisoformat service args) = []"
  using assms resolve_overflow [of "duration_minutes args" e]
  by (auto simp: slots_of_result split: sum.splits)

lemma timedelta_minutes_cases:
  obtains d where "timedelta_minutes m = Inr d" | e where "timedelta_minutes m = Inl e"
  by (cases "timedelta_minutes m") auto

lemma as_slot_inj: "as_slot g = as_slot h \<Longrightarrow> g = h"
  by (cases g, cases h) (simp add: as_slot_def)

lemma timedelta_minutes_value: "timedelta_minutes m = Inr d \<Longrightarrow> d = m * 60000000"
  by (simp add: timedelta_minutes_def split: if_splits)

section \<open>The free slots\<close>

text \<open>
  The walk does not clip an obstacle to the window. An obstacle that starts after the end
  of the window closes a gap that starts inside the window and ends outside of it: with
  the first day as window and an obstacle on the second day from 09:00 to 10:00, the one
  slot returned runs from 00:00 of the first day to 09:00 of the second.
\<close>

theorem slot_past_window_end_counterexample:
  "slots (find_available_slots two_days
       (answering [] [(''p1@example.com'', \<lparr>errors = False, busy = [Inr (at_time 1 9 0 0, at_time 1 10 0 0)]\<rparr>)])
       (first_day 30))
     = [\<lparr>start_time = at_time 0 0 0 0, end_time = at_time 1 9 0 0\<rparr>]
   \<and> at_time 0 23 59 59 < at_time 1 9 0 0"
  by (simp add: find_available_slots_def find_available_slots_body_def two_days_def answering_def
      first_day_def resolve_def sort_busy_def long_enough_def timedelta_minutes_def at_time_def)

text \<open>
  Claim C1, amended. Let the two dates parse, the free/busy query answer, and the busy
  intervals of the calendars without errors all parse, each with its start before its end
  and no later than the end of the window; let the minimum duration be positive. Then the
  slots of the result
  \<^item> are in ascending order and pairwise disjoint (each ends before the next starts);
  \<^item> lie in the window, and each is at least as long as the minimum duration;
  \<^item> contain no busy instant;
  \<^item> leave out no gap: every stretch of the window that is free of busy instants and at
    least as long as the minimum duration lies within one slot.
  So the slots are exactly the maximal free gaps of the window that are long enough.
\<close>

theorem free_slots_are_the_gaps:
  assumes parse1: "fromisoformat (start_date args) = Inr d1"
    and parse2: "fromisoformat (end_date args) = Inr d2"
    and query: "freebusy_query service (at_time d1 0 0 0) (at_time d2 23 59 59) (attendee_emails args) = Inr calendars"
    and collect: "all_busy_intervals calendars = Inr all"
    and positive: "0 < duration_minutes args"
    and valid: "\<forall>(s, e) \<in> set all. s < e \<and> s \<le> at_time d2 23 59 59"
  shows "let found = slots (find_available_slots fromisoformat service args);
             ws = at_time d1 0 0 0;
             we = at_time d2 23 59 59
         in sorted_wrt (\<lambda>x y. end_time x < start_time y) found
          \<and> (\<forall>slot \<in> set found. ws \<le> start_time slot \<and> end_time slot \<le> we
               \<and> (\<exists>d. timedelta_minutes (duration_minutes args) = Inr d
                      \<and> d \<le> end_time slot - start_time slot))
          \<and> (\<forall>slot \<in> set found. \<forall>t. inside slot t \<longrightarrow> \<not> busy_at all t)
          \<and> (\<forall>a b d. timedelta_minutes (duration_minutes args) = Inr d \<and> d \<le> b - a
                 \<and> ws \<le> a \<and> b \<le> we \<and> (\<forall>t. a \<le> t \<and> t < b \<longrightarrow> \<not> busy_at all t)
               \<longrightarrow> (\<exists>slot \<in> set found. start_time slot \<le> a \<and> b \<le> end_time slot))"
proof (cases "duration_minutes args" rule: timedelta_minutes_cases)
  case (2 e)
  then have "slots (find_available_slots fromisoformat service args) = []"
    using parse1 parse2 query collect by (rule slots_overflow [rotated -1])
  with 2 show ?thesis by simp
next
  case (1 d)
  define ws where "ws = at_time d1 0 0 0"
  define we where "we = at_time d2 23 59 59"
  define M where "M = merged_busy (sort_busy all)"
  define G where "G = filter (\<lambda>(a, b). a < b \<and> d \<le> b - a) (gaps ws we M)"
  define found where "found = slots (find_available_slots fromisoformat service args)"
  have found: "found = map as_slot G"
    unfolding found_def G_def ws_def we_def M_def
    using parse1 parse2 query collect 1 by (rule slots_in_range)
  have d_pos: "0 < d" using timedelta_minutes_value [OF 1] positive by simp
  have M_valid: "\<forall>x \<in> set M. fst x < snd x"
    unfolding M_def using valid by (intro merged_busy_valid) (auto simp: sort_busy_set)
  have M_sep: "sorted_wrt (\<lambda>a b. snd a \<le> fst b) M"
    unfolding M_def by (intro merged_busy_separated sort_busy_sorted)
  have M_busy: "busy_at M t = busy_at all t" for t
    unfolding M_def by (simp add: merged_busy_busy_at sort_busy_sorted sort_busy_busy_at)
  have M_starts: "\<forall>x \<in> set M. fst x \<le> we"
  proof
    fix x assume "x \<in> set M"
    then have "fst x \<in> fst ` set all"
      using merged_busy_starts [of "sort_busy all"] by (auto simp: M_def sort_busy_set)
    with valid show "fst x \<le> we" by (auto simp: we_def)
  qed
  have G_sub: "set G \<subseteq> set (gaps ws we M)" by (auto simp: G_def)
  have ordered: "sorted_wrt (\<lambda>x y. end_time x < start_time y) found"
  proof -
    have "sorted_wrt (\<lambda>g h. snd g < fst h) G"
      unfolding G_def using gaps_ordered [OF M_valid] by (rule sorted_wrt_filter)
    then show ?thesis by (simp add: found sorted_wrt_map as_slot_def)
  qed
  have bounds: "ws \<le> start_time slot \<and> end_time slot \<le> we
      \<and> (\<exists>d. timedelta_minutes (duration_minutes args) = Inr d \<and> d \<le> end_time slot - start_time slot)"
    if "slot \<in> set found" for slot
  proof -
    from that obtain a b where g: "(a, b) \<in> set G" and slot: "slot = as_slot (a, b)"
      by (auto simp: found)
    from g have in_gaps: "(a, b) \<in> set (gaps ws we M)" and long: "d \<le> b - a"
      by (auto simp: G_def)
    have "ws \<le> a" using in_gaps by (rule gaps_after_cursor)
    moreover have "b \<le> we" using gaps_end [OF in_gaps] M_starts by auto
    ultimately show ?thesis using long 1 by (auto simp: slot as_slot_def)
  qed
  have free: "\<not> busy_at all t" if "slot \<in> set found" and "inside slot t" for slot t
  proof -
    from that(1) obtain a b where g: "(a, b) \<in> set G" and slot: "slot = as_slot (a, b)"
      by (auto simp: found)
    from g have in_gaps: "(a, b) \<in> set (gaps ws we M)" by (auto simp: G_def)
    from that(2) have "a \<le> t" "t < b" by (simp_all add: slot inside_def as_slot_def)
    with gaps_free [OF M_valid M_sep in_gaps] have "\<not> busy_at M t" by simp
    then show ?thesis by (simp add: M_busy)
  qed
  have complete: "\<exists>slot \<in> set found. start_time slot \<le> a \<and> b \<le> end_time slot"
    if "timedelta_minutes (duration_minutes args) = Inr d'" and "d' \<le> b - a"
      and "ws \<le> a" and "b \<le> we" and "\<forall>t. a \<le> t \<and> t < b \<longrightarrow> \<not> busy_at all t"
    for a b d'
  proof -
    from that(1) 1 have "d' = d" by simp
    with that(2) d_pos have "a < b" and long: "d \<le> b - a" by simp_all
    from that(5) have "\<forall>t. a \<le> t \<and> t < b \<longrightarrow> \<not> busy_at M t" by (simp add: M_busy)
    from gaps_complete [OF M_valid that(3) \<open>a < b\<close> that(4) this]
    obtain g where g: "g \<in> set (gaps ws we M)" and cover: "fst g \<le> a" "b \<le> snd g" by blast
    from cover long \<open>a < b\<close> have "fst g < snd g \<and> d \<le> snd g - fst g" by simp
    with g have "g \<in> set G" by (auto simp: G_def)
    then have "as_slot g \<in> set found" by (simp add: found)
    moreover have "start_time (as_slot g) \<le> a \<and> b \<le> end_time (as_slot g)"
      using cover by (simp add: as_slot_def)
    ultimately show ?thesis by blast
  qed
  show ?thesis
    unfolding Let_def found_def [symmetric] ws_def [symmetric] we_def [symmetric]
    using ordered bounds free complete by blast
qed

lemma scenario_A_slots:
  "slots (find_available_slots two_days (answering [] scenario_A) (first_day 30)) =
     [\<lparr>start_time = at_time 0 0 0 0, end_time = at_time 0 9 0 0\<rparr>,
      \<lparr>start_time = at_time 0 11 0 0, end_time = at_time 0 23 59 59\<rparr>]"
  by (simp add: find_available_slots_def find_available_slots_body_def two_days_def answering_def
      first_day_def scenario_A_def resolve_def sort_busy_def long_enough_def timedelta_minutes_def
      at_time_def)

theorem free_slots_are_the_gaps_witness:
  "sorted_wrt (\<lambda>x y. end_time x < start_time y)
     (slots (find_available_slots two_days (answering [] scenario_A) (first_day 30)))
   \<and> slots (find_available_slots two_days (answering [] scenario_A) (first_day 30)) \<noteq> []"
proof -
  have parse1: "two_days (start_date (first_day 30)) = Inr 0"
    and parse2: "two_days (end_date (first_day 30)) = Inr 0"
    by (simp_all add: two_days_def first_day_def)
  have query: "freebusy_query (answering [] scenario_A) (at_time 0 0 0 0) (at_time 0 23 59 59)
      (attendee_emails (first_day 30)) = Inr scenario_A"
    by (simp add: answering_def)
  have collect: "all_busy_intervals scenario_A =
      Inr [(at_time 0 9 0 0, at_time 0 10 0 0), (at_time 0 9 30 0, at_time 0 11 0 0)]"
    by (simp add: scenario_A_def)
  have positive: "0 < duration_minutes (first_day 30)"
    by (simp add: first_day_def)
  have valid: "\<forall>(s, e) \<in> set [(at_time 0 9 0 0, at_time 0 10 0 0), (at_time 0 9 30 0, at_time 0 11 0 0)].
      s < e \<and> s \<le> at_time 0 23 59 59"
    by (simp add: at_time_def)
  from free_slots_are_the_gaps [OF parse1 parse2 query collect positive valid]
  have "sorted_wrt (\<lambda>x y. end_time x < start_time y)
     (slots (find_available_slots two_days (answering [] scenario_A) (first_day 30)))"
    by (simp add: Let_def)
  moreover have "slots (find_available_slots two_days (answering [] scenario_A) (first_day 30)) \<noteq> []"
    by (simp add: scenario_A_slots)
  ultimately show ?thesis by simp
qed

section \<open>The boundary of the minimum duration\<close>

text \<open>
  Claim C8. Take any gap that the walk examines, between the cursor and the next obstacle
  or the end of the window, and a minimum duration \<open>m > 0\<close> (in minutes) whose
  \<^verbatim>\<open>timedelta\<close> is exactly the gap's length. Asked for \<open>m\<close> minutes, the operation
  returns the gap as a slot; asked for \<open>m + 1\<close> minutes, it does not.
\<close>

theorem boundary_gap_emitted_or_excluded:
  assumes parse1: "fromisoformat (start_date args) = Inr d1"
    and parse2: "fromisoformat (end_date args) = Inr d2"
    and query: "freebusy_query service (at_time d1 0 0 0) (at_time d2 23 59 59) (attendee_emails args) = Inr calendars"
    and collect: "all_busy_intervals calendars = Inr all"
    and gap: "g \<in> set (gaps (at_time d1 0 0 0) (at_time d2 23 59 59) (merged_busy (sort_busy all)))"
    and positive: "0 < m"
    and exact: "timedelta_minutes m = Inr (snd g - fst g)"
  shows "as_slot g \<in> set (slots (find_available_slots fromisoformat service (args\<lparr>duration_minutes := m\<rparr>)))
       \<and> as_slot g \<notin> set (slots (find_available_slots fromisoformat service (args\<lparr>duration_minutes := m + 1\<rparr>)))"
proof
  have len: "snd g - fst g = m * 60000000"
    using timedelta_minutes_value [OF exact] .
  have "slots (find_available_slots fromisoformat service (args\<lparr>duration_minutes := m\<rparr>)) =
      map as_slot (filter (\<lambda>(a, b). a < b \<and> snd g - fst g \<le> b - a)
        (gaps (at_time d1 0 0 0) (at_time d2 23 59 59) (merged_busy (sort_busy all))))"
    using parse1 parse2 query collect exact by (intro slots_in_range) simp_all
  moreover have "fst g < snd g" using len positive by simp
  ultimately show "as_slot g \<in> set (slots (find_available_slots fromisoformat service (args\<lparr>duration_minutes := m\<rparr>)))"
    using gap by (auto simp: case_prod_beta)
next
  have len: "snd g - fst g = m * 60000000"
    using timedelta_minutes_value [OF exact] .
  show "as_slot g \<notin> set (slots (find_available_slots fromisoformat service (args\<lparr>duration_minutes := m + 1\<rparr>)))"
  proof (cases "m + 1" rule: timedelta_minutes_cases)
    case (2 e)
    have "slots (find_available_slots fromisoformat service (args\<lparr>duration_minutes := m + 1\<rparr>)) = []"
      using parse1 parse2 query collect 2 by (intro slots_overflow) simp_all
    then show ?thesis by simp
  next
    case (1 d)
    have d: "d = (m + 1) * 60000000" using timedelta_minutes_value [OF 1] .
    have eq: "slots (find_available_slots fromisoformat service (args\<lparr>duration_minutes := m + 1\<rparr>)) =
        map as_slot (filter (\<lambda>(a, b). a < b \<and> d \<le> b - a)
          (gaps (at_time d1 0 0 0) (at_time d2 23 59 59) (merged_busy (sort_busy all))))"
      using parse1 parse2 query collect 1 by (intro slots_in_range) simp_all
    show ?thesis
    proof
      assume "as_slot g \<in> set (slots (find_available_slots fromisoformat service (args\<lparr>duration_minutes := m + 1\<rparr>)))"
      then obtain h where "as_slot h = as_slot g" and "d \<le> snd h - fst h"
        unfolding eq by (auto simp: case_prod_beta)
      then have "d \<le> snd g - fst g" using as_slot_inj [of h g] by simp
      with len d show False by simp
    qed
  qed
qed

theorem boundary_gap_emitted_or_excluded_witness:
  "as_slot (at_time 0 0 0 0, at_time 0 9 0 0)
     \<in> set (slots (find_available_slots two_days (answering [] scenario_A) (first_day 540)))
   \<and> as_slot (at_time 0 0 0 0, at_time 0 9 0 0)
     \<notin> set (slots (find_available_slots two_days (answering [] scenario_A) (first_day 541)))"
proof -
  have parse1: "two_days (start_date (first_day 30)) = Inr 0"
    and parse2: "two_days (end_date (first_day 30)) = Inr 0"
    by (simp_all add: two_days_def first_day_def)
  have query: "freebusy_query (answering [] scenario_A) (at_time 0 0 0 0) (at_time 0 23 59 59)
      (attendee_emails (first_day 30)) = Inr scenario_A"
    by (simp add: answering_def)
  have collect: "all_busy_intervals scenario_A =
      Inr [(at_time 0 9 0 0, at_time 0 10 0 0), (at_time 0 9 30 0, at_time 0 11 0 0)]"
    by (simp add: scenario_A_def)
  have gap: "(at_time 0 0 0 0, at_time 0 9 0 0) \<in> set (gaps (at_time 0 0 0 0) (at_time 0 23 59 59)
      (merged_busy (sort_busy [(at_time 0 9 0 0, at_time 0 10 0 0), (at_time 0 9 30 0, at_time 0 11 0 0)])))"
    by (simp add: sort_busy_def at_time_def)
  have positive: "(0::int) < 540" by simp
  have exact: "timedelta_minutes 540 = Inr (snd (at_time 0 0 0 0, at_time 0 9 0 0) - fst (at_time 0 0 0 0, at_time 0 9 0 0))"
    by (simp add: timedelta_minutes_def at_time_def)
  have "(first_day 30)\<lparr>duration_minutes := 540\<rparr> = first_day 540"
    and "(first_day 30)\<lparr>duration_minutes := 540 + 1\<rparr> = first_day 541"
    by (simp_all add: first_day_def)
  with boundary_gap_emitted_or_excluded [OF parse1 parse2 query collect gap positive exact]
  show ?thesis by simp
qed

section \<open>The window\<close>

lemma at_time_end_of_day: "at_time d 23 59 59 = at_time d 0 0 0 + 86399000000"
  by (simp add: at_time_def)

text \<open>
  With the first day as window and an obstacle that starts at 00:00 of the second day,
  the slot returned ends at that 00:00, so the last second of the end date, from 23:59:59
  on, is inside it.
\<close>

theorem slot_covers_last_second_counterexample:
  "slots (find_available_slots two_days
       (answering [] [(''p1@example.com'', \<lparr>errors = False, busy = [Inr (at_time 1 0 0 0, at_time 1 1 0 0)]\<rparr>)])
       (first_day 60))
     = [\<lparr>start_time = at_time 0 0 0 0, end_time = at_time 1 0 0 0\<rparr>]
   \<and> inside \<lparr>start_time = at_time 0 0 0 0, end_time = at_time 1 0 0 0\<rparr> (at_time 0 23 59 59)"
  by (simp add: find_available_slots_def find_available_slots_body_def two_days_def answering_def
      first_day_def resolve_def sort_busy_def long_enough_def timedelta_minutes_def at_time_def
      inside_def)

text \<open>
  Claim C10, amended. The window runs from 00:00:00 UTC of the start date to 23:59:59 UTC
  of the end date, and these are the bounds given to the free/busy query. If no busy
  interval of the answer starts after the end of the window, every slot returned starts
  at or after the window's start, is not empty, ends at or before the window's end, and
  holds no instant from 23:59:59 of the end date on.
\<close>

theorem slots_within_window:
  assumes parse1: "fromisoformat (start_date args) = Inr d1"
    and parse2: "fromisoformat (end_date args) = Inr d2"
    and query: "freebusy_query service (at_time d1 0 0 0) (at_time d2 23 59 59) (attendee_emails args) = Inr calendars"
    and collect: "all_busy_intervals calendars = Inr all"
    and starts: "\<forall>(s, e) \<in> set all. s \<le> at_time d2 23 59 59"
  shows "\<forall>slot \<in> set (slots (find_available_slots fromisoformat service args)).
           at_time d1 0 0 0 \<le> start_time slot \<and> start_time slot < end_time slot
         \<and> end_time slot \<le> at_time d2 23 59 59
         \<and> (\<forall>t. at_time d2 23 59 59 \<le> t \<longrightarrow> \<not> inside slot t)"
proof (cases "duration_minutes args" rule: timedelta_minutes_cases)
  case (2 e)
  then have "slots (find_available_slots fromisoformat service args) = []"
    using parse1 parse2 query collect by (rule slots_overflow [rotated -1])
  then show ?thesis by simp
next
  case (1 d)
  define M where "M = merged_busy (sort_busy all)"
  have found: "slots (find_available_slots fromisoformat service args) =
      map as_slot (filter (\<lambda>(a, b). a < b \<and> d \<le> b - a) (gaps (at_time d1 0 0 0) (at_time d2 23 59 59) M))"
    unfolding M_def using parse1 parse2 query collect 1 by (rule slots_in_range)
  have M_starts: "\<forall>x \<in> set M. fst x \<le> at_time d2 23 59 59"
  proof
    fix x assume "x \<in> set M"
    then have "fst x \<in> fst ` set all"
      using merged_busy_starts [of "sort_busy all"] by (auto simp: M_def sort_busy_set)
    with starts show "fst x \<le> at_time d2 23 59 59" by auto
  qed
  show ?thesis
  proof
    fix slot assume "slot \<in> set (slots (find_available_slots fromisoformat service args))"
    then obtain a b where in_gaps: "(a, b) \<in> set (gaps (at_time d1 0 0 0) (at_time d2 23 59 59) M)"
      and "a < b" and slot: "slot = as_slot (a, b)"
      by (auto simp: found)
    have "at_time d1 0 0 0 \<le> a" using in_gaps by (rule gaps_after_cursor)
    moreover have "b \<le> at_time d2 23 59 59" using gaps_end [OF in_gaps] M_starts by auto
    ultimately show "at_time d1 0 0 0 \<le> start_time slot \<and> start_time slot < end_time slot
         \<and> end_time slot \<le> at_time d2 23 59 59
         \<and> (\<forall>t. at_time d2 23 59 59 \<le> t \<longrightarrow> \<not> inside slot t)"
      using \<open>a < b\<close> by (auto simp: slot as_slot_def inside_def)
  qed
qed

theorem slots_within_window_witness:
  "list_all (\<lambda>slot. at_time 0 0 0 0 \<le> start_time slot \<and> end_time slot \<le> at_time 0 23 59 59)
     (slots (find_available_slots two_days (answering [] scenario_A) (first_day 45)))
   \<and> length (slots (find_available_slots two_days (answering [] scenario_A) (first_day 45))) = 2"
proof -
  have parse1: "two_days (start_date (first_day 45)) = Inr 0"
    and parse2: "two_days (end_date (first_day 45)) = Inr 0"
    by (simp_all add: two_days_def first_day_def)
  have query: "freebusy_query (answering [] scenario_A) (at_time 0 0 0 0) (at_time 0 23 59 59)
      (attendee_emails (first_day 45)) = Inr scenario_A"
    by (simp add: answering_def)
  have collect: "all_busy_intervals scenario_A =
      Inr [(at_time 0 9 0 0, at_time 0 10 0 0), (at_time 0 9 30 0, at_time 0 11 0 0)]"
    by (simp add: scenario_A_def)
  have starts: "\<forall>(s, e) \<in> set [(at_time 0 9 0 0, at_time 0 10 0 0), (at_time 0 9 30 0, at_time 0 11 0 0)].
      s \<le> at_time 0 23 59 59"
    by (simp add: at_time_def)
  have "list_all (\<lambda>slot. at_time 0 0 0 0 \<le> start_time slot \<and> end_time slot \<le> at_time 0 23 59 59)
     (slots (find_available_slots two_days (answering [] scenario_A) (first_day 45)))"
    using slots_within_window [OF parse1 parse2 query collect starts]
    by (simp add: list_all_iff)
  moreover have "length (slots (find_available_slots two_days (answering [] scenario_A) (first_day 45))) = 2"
    by (simp add: find_available_slots_def find_available_slots_body_def two_days_def answering_def
      first_day_def scenario_A_def resolve_def sort_busy_def long_enough_def timedelta_minutes_def
      at_time_def)
  ultimately show ?thesis by simp
qed

section \<open>The sweep\<close>

text \<open>
  Two intervals that touch, the second starting at the instant the first ends, stay two
  runs: the test of line 123 is strict.
\<close>

theorem adjacent_intervals_not_merged_counterexample:
  "merged_busy (sort_busy [(at_time 0 9 0 0, at_time 0 10 0 0), (at_time 0 10 0 0, at_time 0 11 0 0)])
     = [(at_time 0 9 0 0, at_time 0 10 0 0), (at_time 0 10 0 0, at_time 0 11 0 0)]"
  by (simp add: sort_busy_def at_time_def)

text \<open>
  Claim C3, amended. The sweep over the sorted union merges overlapping intervals, and
  only those: an interval joins the current run exactly when its start is strictly less
  than the run's end, the run's end becoming the maximum of the two ends; otherwise (also
  when it starts at the run's end) the run closes and a new run opens. The runs are
  disjoint and in order (each ends at or before the start of the next), they cover exactly
  the instants that the busy intervals cover, each run starts where some busy interval
  starts, and a run's start is before its end when this holds of the busy intervals.
\<close>

theorem sweep_merges_overlapping:
  "sorted_wrt (\<lambda>a b. snd a \<le> fst b) (merged_busy (sort_busy xs))
   \<and> (\<forall>t. busy_at (merged_busy (sort_busy xs)) t = busy_at xs t)
   \<and> fst ` set (merged_busy (sort_busy xs)) \<subseteq> fst ` set xs
   \<and> ((\<forall>x \<in> set xs. fst x < snd x) \<longrightarrow> (\<forall>x \<in> set (merged_busy (sort_busy xs)). fst x < snd x))
   \<and> (\<forall>current_start current_end next_start next_end rest.
        merge_run (current_start, current_end) ((next_start, next_end) # rest) =
          (if next_start < current_end
           then merge_run (current_start, max current_end next_end) rest
           else (current_start, current_end) # merge_run (next_start, next_end) rest))"
proof (intro conjI)
  show "sorted_wrt (\<lambda>a b. snd a \<le> fst b) (merged_busy (sort_busy xs))"
    by (intro merged_busy_separated sort_busy_sorted)
  show "\<forall>t. busy_at (merged_busy (sort_busy xs)) t = busy_at xs t"
    by (simp add: merged_busy_busy_at sort_busy_sorted sort_busy_busy_at)
  show "fst ` set (merged_busy (sort_busy xs)) \<subseteq> fst ` set xs"
    using merged_busy_starts [of "sort_busy xs"] by (simp add: sort_busy_set)
  show "(\<forall>x \<in> set xs. fst x < snd x) \<longrightarrow> (\<forall>x \<in> set (merged_busy (sort_busy xs)). fst x < snd x)"
    using merged_busy_valid [of "sort_busy xs"] by (simp add: sort_busy_set)
  show "\<forall>current_start current_end next_start next_end rest.
        merge_run (current_start, current_end) ((next_start, next_end) # rest) =
          (if next_start < current_end
           then merge_run (current_start, max current_end next_end) rest
           else (current_start, current_end) # merge_run (next_start, next_end) rest)"
    by simp
qed

theorem sweep_merges_overlapping_witness:
  "sorted_wrt (\<lambda>a b. snd a \<le> fst b)
     (merged_busy (sort_busy [(at_time 0 9 30 0, at_time 0 11 0 0), (at_time 0 9 0 0, at_time 0 10 0 0)]))
   \<and> list_all (\<lambda>x. fst x < snd x)
     (merged_busy (sort_busy [(at_time 0 9 30 0, at_time 0 11 0 0), (at_time 0 9 0 0, at_time 0 10 0 0)]))
   \<and> merged_busy (sort_busy [(at_time 0 9 30 0, at_time 0 11 0 0), (at_time 0 9 0 0, at_time 0 10 0 0)])
     = [(at_time 0 9 0 0, at_time 0 11 0 0)]"
proof -
  have valid: "\<forall>x \<in> set [(at_time 0 9 30 0, at_time 0 11 0 0), (at_time 0 9 0 0, at_time 0 10 0 0)]. fst x < snd x"
    by (simp add: at_time_def)
  have "merged_busy (sort_busy [(at_time 0 9 30 0, at_time 0 11 0 0), (at_time 0 9 0 0, at_time 0 10 0 0)])
     = [(at_time 0 9 0 0, at_time 0 11 0 0)]"
    by (simp add: sort_busy_def at_time_def)
  with sweep_merges_overlapping [of "[(at_time 0 9 30 0, at_time 0 11 0 0), (at_time 0 9 0 0, at_time 0 10 0 0)]"] valid
  show ?thesis by (simp add: list_all_iff)
qed

section \<open>The sort\<close>

text \<open>
  Of two intervals with the same start, the one that comes first in the union stays
  first, also when its end is the later one.
\<close>

theorem ties_keep_input_order_counterexample:
  "sort_busy [(at_time 0 9 0 0, at_time 0 11 0 0), (at_time 0 9 0 0, at_time 0 10 0 0)]
     = [(at_time 0 9 0 0, at_time 0 11 0 0), (at_time 0 9 0 0, at_time 0 10 0 0)]
   \<and> at_time 0 10 0 0 < at_time 0 11 0 0"
  by (simp add: sort_busy_def at_time_def)

text \<open>
  Claim C7, amended. The union of the busy intervals is sorted by start time alone. The
  sort is stable and deterministic: the result is a permutation of the union in ascending
  order of start, and intervals with equal starts keep the order they had in the union,
  whatever their ends.
\<close>

theorem sort_by_start_is_stable:
  "sorted (map fst (sort_busy xs))
   \<and> mset (sort_busy xs) = mset xs
   \<and> (\<forall>k. filter (\<lambda>x. fst x = k) (sort_busy xs) = filter (\<lambda>x. fst x = k) xs)"
  by (simp add: sort_busy_def sort_key_stable)

section \<open>Calendars with retrieval errors\<close>

lemma all_busy_intervals_skips_errors:
  "all_busy_intervals (filter (\<lambda>(cal_id, data). \<not> errors data) calendars) = all_busy_intervals calendars"
  by (induction calendars rule: all_busy_intervals.induct) (auto split: sum.splits)

text \<open>
  A calendar marked with errors whose busy interval fills the whole window: the window is
  returned as one free slot, and neither the status nor the error field of the result
  says anything about it.
\<close>

theorem errors_calendar_counts_as_free_counterexample:
  "find_available_slots two_days
     (answering [] [(''p1@example.com'',
        \<lparr>errors = True, busy = [Inr (at_time 0 0 0 0, at_time 0 23 59 59)]\<rparr>)])
     (first_day 30)
   = \<lparr>slots = [\<lparr>start_time = at_time 0 0 0 0, end_time = at_time 0 23 59 59\<rparr>],
      status = None, error = None\<rparr>"
  by (simp add: find_available_slots_def find_available_slots_body_def two_days_def answering_def
      first_day_def resolve_def sort_busy_def long_enough_def timedelta_minutes_def at_time_def)

text \<open>
  Claim C6, amended. A calendar that the free/busy answer marks with errors is skipped:
  its busy intervals are left out of the union, and the result of
  \<^verbatim>\<open>find_available_slots\<close> is the one it gives when the answer does not hold such
  calendars at all. The only trace is the warning of line 113 on standard output.
\<close>

theorem calendars_with_errors_are_skipped:
  "find_available_slots fromisoformat
     (service\<lparr>freebusy_query := \<lambda>time_min time_max emails.
        map_sum id (filter (\<lambda>(cal_id, data). \<not> errors data))
          (freebusy_query service time_min time_max emails)\<rparr>)
     args
   = find_available_slots fromisoformat service args"
proof -
  have "find_available_slots_body fromisoformat
     (service\<lparr>freebusy_query := \<lambda>time_min time_max emails.
        map_sum id (filter (\<lambda>(cal_id, data). \<not> errors data))
          (freebusy_query service time_min time_max emails)\<rparr>)
     args
   = find_available_slots_body fromisoformat service args"
    by (simp add: find_available_slots_body_def Let_def all_busy_intervals_skips_errors
        split: sum.splits)
  then show ?thesis by (simp add: find_available_slots_def)
qed

section \<open>Failures of the calendar API\<close>

text \<open>
  Claim C9. When the call of the calendar API raises inside
  \<^verbatim>\<open>find_available_slots\<close> or \<^verbatim>\<open>retrieve_calendar_events\<close>, the operation
  returns a result whose error field holds the message (of an API error for an
  \<^verbatim>\<open>HttpError\<close>, of an unexpected error otherwise), with no slots or events and no
  status; no exception leaves the operation.
\<close>

theorem api_failure_gives_error_result:
  "(fromisoformat (start_date args) = Inr d1 \<and> fromisoformat (end_date args) = Inr d2
      \<and> freebusy_query service (at_time d1 0 0 0) (at_time d2 23 59 59) (attendee_emails args) = Inl e
    \<longrightarrow> find_available_slots fromisoformat service args =
          \<lparr>slots = [], status = None,
           error = Some (case e of HttpError m \<Rightarrow> ''An API error occurred: '' @ m
                         | _ \<Rightarrow> ''An unexpected error occurred: '' @ str e)\<rparr>)
   \<and> (fromisoformat_z (RetrieveCalendarEventsArgs.start_date rargs) = Inr r1
      \<and> fromisoformat_z (RetrieveCalendarEventsArgs.end_date rargs) = Inr r2
      \<and> events_list service (at_time r1 0 0 0) (at_time r2 23 59 59) = Inl e
    \<longrightarrow> retrieve_calendar_events fromisoformat_z service rargs =
          \<lparr>events = [], RetrieveCalendarEventsOutput.status = None,
           RetrieveCalendarEventsOutput.error =
             Some (case e of HttpError m \<Rightarrow> ''An API error occurred: '' @ m
                   | _ \<Rightarrow> ''An unexpected error occurred: '' @ str e)\<rparr>)"
  by (cases e)
    (simp_all add: find_available_slots_def find_available_slots_body_def
      retrieve_calendar_events_def retrieve_calendar_events_body_def)

theorem api_failure_gives_error_result_witness:
  "find_available_slots two_days (failing (HttpError ''503'')) (first_day 30) =
     \<lparr>slots = [], status = None, error = Some ''An API error occurred: 503''\<rparr>
   \<and> retrieve_calendar_events two_days (failing (HttpError ''503''))
       \<lparr>RetrieveCalendarEventsArgs.start_date = ''0001-01-01'',
        RetrieveCalendarEventsArgs.end_date = ''0001-01-02''\<rparr> =
     \<lparr>events = [], RetrieveCalendarEventsOutput.status = None,
      RetrieveCalendarEventsOutput.error = Some ''An API error occurred: 503''\<rparr>"
proof -
  have h1: "two_days (start_date (first_day 30)) = Inr 0 \<and> two_days (end_date (first_day 30)) = Inr 0
      \<and> freebusy_query (failing (HttpError ''503'')) (at_time 0 0 0 0) (at_time 0 23 59 59)
           (attendee_emails (first_day 30)) = Inl (HttpError ''503'')"
    by (simp add: two_days_def first_day_def failing_def)
  have h2: "two_days (RetrieveCalendarEventsArgs.start_date
        \<lparr>RetrieveCalendarEventsArgs.start_date = ''0001-01-01'',
         RetrieveCalendarEventsArgs.end_date = ''0001-01-02''\<rparr>) = Inr 0
      \<and> two_days (RetrieveCalendarEventsArgs.end_date
        \<lparr>RetrieveCalendarEventsArgs.start_date = ''0001-01-01'',
         RetrieveCalendarEventsArgs.end_date = ''0001-01-02''\<rparr>) = Inr 1
      \<and> events_list (failing (HttpError ''503'')) (at_time 0 0 0 0) (at_time 1 23 59 59)
           = Inl (HttpError ''503'')"
    by (simp add: two_days_def failing_def)
  from api_failure_gives_error_result [of two_days "first_day 30" 0 0 "failing (HttpError ''503'')"
      "HttpError ''503''" two_days
      "\<lparr>RetrieveCalendarEventsArgs.start_date = ''0001-01-01'',
        RetrieveCalendarEventsArgs.end_date = ''0001-01-02''\<rparr>" 0 1] h1 h2
  show ?thesis by simp
qed

section \<open>The dispatcher\<close>

lemma process_registered:
  "\<forall>tc \<in> set calls. map_of (tools ag) (function_name tc) \<noteq> None \<Longrightarrow>
   process_tool_calls ag calls messages =
     (None, messages @ map (\<lambda>tc. execute_tool (the (map_of (tools ag) (function_name tc))) tc) calls)"
  by (induction calls arbitrary: messages) auto

lemma execute_tool_invalid:
  "args_model t (arguments tc) = Inl e \<Longrightarrow> execute_tool t tc = error_result tc e"
  by (simp add: execute_tool_def)

lemma execute_tool_raises:
  "args_model t (arguments tc) = Inr a \<Longrightarrow>
   tool_function t (call_shape_of (function_name tc)) a = Inl e \<Longrightarrow>
   execute_tool t tc = error_result tc e"
  by (simp add: execute_tool_def)

text \<open>
  Claim C5. If the model's first response holds no invocation request (its
  \<^verbatim>\<open>tool_calls\<close> is \<^verbatim>\<open>None\<close> or the empty list),
  \<^verbatim>\<open>run_conversation\<close> returns that response as it is, leaves the conversation as
  it was, and has made the one submission only.
\<close>

theorem no_invocations_returns_first_response:
  assumes "create ag messages (Some (get_tool_definitions ag)) = Inr r"
    and "tool_calls r = None \<or> tool_calls r = Some []"
  shows "run_conversation ag messages =
           \<lparr>returned = Inr r, conversation = messages,
            submissions = [(messages, Some (get_tool_definitions ag))]\<rparr>"
  using assms by (auto simp: run_conversation_def)

theorem no_invocations_returns_first_response_witness:
  "run_conversation (sample_agent (Some [])) [Dict ''user'' ''When can we meet?''] =
     \<lparr>returned = Inr \<lparr>content = None, tool_calls = Some []\<rparr>,
      conversation = [Dict ''user'' ''When can we meet?''],
      submissions = [([Dict ''user'' ''When can we meet?''], Some [''parse_email''])]\<rparr>"
proof -
  have first: "create (sample_agent (Some [])) [Dict ''user'' ''When can we meet?'']
      (Some (get_tool_definitions (sample_agent (Some [])))) = Inr \<lparr>content = None, tool_calls = Some []\<rparr>"
    by (simp add: sample_agent_def)
  have none: "tool_calls \<lparr>content = None, tool_calls = Some []\<rparr> = None
      \<or> tool_calls \<lparr>content = None, tool_calls = Some []\<rparr> = Some []"
    by simp
  have "get_tool_definitions (sample_agent (Some [])) = [''parse_email'']"
    by (simp add: get_tool_definitions_def sample_agent_def)
  with no_invocations_returns_first_response [OF first none] show ?thesis by simp
qed

text \<open>
  Claim C2, on the code. The first of two invocations names \<open>send_invite\<close>, which is
  not in the catalog; the second names a registered tool. The subscript of line 30 raises
  \<^verbatim>\<open>KeyError\<close> outside of the \<^verbatim>\<open>try\<close>: \<^verbatim>\<open>run_conversation\<close> raises it,
  the conversation holds no tool result for either invocation, and the model has been
  called once only.
\<close>

theorem unknown_operation_aborts_round:
  "run_conversation
     (sample_agent (Some [\<lparr>call_id = ''call_1'', function_name = ''send_invite'', arguments = ''{}''\<rparr>,
                          \<lparr>call_id = ''call_2'', function_name = ''parse_email'', arguments = ''{}''\<rparr>]))
     [Dict ''user'' ''When can we meet?'']
   = \<lparr>returned = Inl (KeyError ''send_invite''),
      conversation =
        [Dict ''user'' ''When can we meet?'',
         Response \<lparr>content = None, tool_calls =
           Some [\<lparr>call_id = ''call_1'', function_name = ''send_invite'', arguments = ''{}''\<rparr>,
                 \<lparr>call_id = ''call_2'', function_name = ''parse_email'', arguments = ''{}''\<rparr>]\<rparr>],
      submissions = [([Dict ''user'' ''When can we meet?''], Some [''parse_email''])]\<rparr>"
  by (simp add: run_conversation_def sample_agent_def get_tool_definitions_def)

text \<open>
  Claim C4, on the code. The first invocation names a registered tool and its payload is
  not JSON: it gets its error result, tagged with its identifier. The invocation after it
  names \<open>send_invite\<close>, which is not in the catalog: the subscript of line 30 raises
  \<^verbatim>\<open>KeyError\<close> outside of the \<^verbatim>\<open>try\<close>, and the round ends there, before
  the submission without tools. The failure of one invocation has stopped the round.
\<close>

theorem unknown_sibling_aborts_round:
  "run_conversation
     (sample_agent (Some [\<lparr>call_id = ''call_1'', function_name = ''parse_email'', arguments = ''not json''\<rparr>,
                          \<lparr>call_id = ''call_2'', function_name = ''send_invite'', arguments = ''{}''\<rparr>]))
     [Dict ''user'' ''When can we meet?'']
   = \<lparr>returned = Inl (KeyError ''send_invite''),
      conversation =
        [Dict ''user'' ''When can we meet?'',
         Response \<lparr>content = None, tool_calls =
           Some [\<lparr>call_id = ''call_1'', function_name = ''parse_email'', arguments = ''not json''\<rparr>,
                 \<lparr>call_id = ''call_2'', function_name = ''send_invite'', arguments = ''{}''\<rparr>]\<rparr>,
         error_result \<lparr>call_id = ''call_1'', function_name = ''parse_email'', arguments = ''not json''\<rparr>
           (ValidationError ''Invalid JSON'')],
      submissions = [([Dict ''user'' ''When can we meet?''], Some [''parse_email''])]\<rparr>"
  by (simp add: run_conversation_def sample_agent_def get_tool_definitions_def execute_tool_def
      sample_tool_def)

text \<open>
  Rounds of registered operations. Where the subscript of line 30 finds every name, the
  \<^verbatim>\<open>try\<close> of lines 31-47 does for each invocation what the dispatcher is meant to
  do for all: in a round in which every invocation names a registered operation,
  the dispatcher appends, after the model's message, one tool result for each invocation,
  in the order issued and tagged with the invocation's identifier and name; for an
  invocation whose payload fails validation (malformed JSON or schema), and for one whose
  handler raises, that result is the error message made from the exception. The
  conversation so extended is then submitted to the model without tools, and what that
  submission gives is what \<^verbatim>\<open>run_conversation\<close> returns.
\<close>

theorem failed_invocations_get_error_results:
  assumes first: "create ag messages (Some (get_tool_definitions ag)) = Inr r"
    and calls: "tool_calls r = Some calls" "calls \<noteq> []"
    and registered: "\<forall>tc \<in> set calls. map_of (tools ag) (function_name tc) \<noteq> None"
  shows "\<exists>results.
           run_conversation ag messages =
             \<lparr>returned = create ag (messages @ Response r # results) None,
              conversation = messages @ Response r # results,
              submissions = [(messages, Some (get_tool_definitions ag)),
                             (messages @ Response r # results, None)]\<rparr>
         \<and> list_all2 (\<lambda>tc result. \<exists>t. map_of (tools ag) (function_name tc) = Some t
               \<and> result = execute_tool t tc
               \<and> (\<forall>e. args_model t (arguments tc) = Inl e \<longrightarrow>
                      result = error_result tc e)
               \<and> (\<forall>a e. args_model t (arguments tc) = Inr a
                      \<and> tool_function t (call_shape_of (function_name tc)) a = Inl e \<longrightarrow>
                      result = error_result tc e)
               \<and> (\<exists>content. result = Tool (call_id tc) (function_name tc) content))
             calls results"
proof -
  define results where
    "results = map (\<lambda>tc. execute_tool (the (map_of (tools ag) (function_name tc))) tc) calls"
  obtain tc rest where split: "calls = tc # rest" using calls(2) by (cases calls) auto
  have loop: "process_tool_calls ag calls (messages @ [Response r]) =
      (None, messages @ Response r # results)"
    using process_registered [OF registered] by (simp add: results_def)
  have run: "run_conversation ag messages =
      \<lparr>returned = create ag (messages @ Response r # results) None,
       conversation = messages @ Response r # results,
       submissions = [(messages, Some (get_tool_definitions ag)),
                      (messages @ Response r # results, None)]\<rparr>"
    using first calls(1) loop by (simp add: run_conversation_def split)
  have tagged: "\<exists>content. execute_tool t c = Tool (call_id c) (function_name c) content" for t :: "'a tool" and c
    by (auto simp: execute_tool_def error_result_def split: sum.splits)
  have each: "list_all2 (\<lambda>tc result. \<exists>t. map_of (tools ag) (function_name tc) = Some t
               \<and> result = execute_tool t tc
               \<and> (\<forall>e. args_model t (arguments tc) = Inl e \<longrightarrow>
                      result = error_result tc e)
               \<and> (\<forall>a e. args_model t (arguments tc) = Inr a
                      \<and> tool_function t (call_shape_of (function_name tc)) a = Inl e \<longrightarrow>
                      result = error_result tc e)
               \<and> (\<exists>content. result = Tool (call_id tc) (function_name tc) content))
             calls results"
    unfolding results_def list_all2_map2
  proof (rule list.rel_refl_strong)
    fix c assume "c \<in> set calls"
    with registered obtain t where t: "map_of (tools ag) (function_name c) = Some t" by auto
    show "\<exists>t. map_of (tools ag) (function_name c) = Some t
        \<and> execute_tool (the (map_of (tools ag) (function_name c))) c = execute_tool t c
        \<and> (\<forall>e. args_model t (arguments c) = Inl e \<longrightarrow>
              execute_tool (the (map_of (tools ag) (function_name c))) c = error_result c e)
        \<and> (\<forall>a e. args_model t (arguments c) = Inr a
              \<and> tool_function t (call_shape_of (function_name c)) a = Inl e \<longrightarrow>
              execute_tool (the (map_of (tools ag) (function_name c))) c = error_result c e)
        \<and> (\<exists>content. execute_tool (the (map_of (tools ag) (function_name c))) c
              = Tool (call_id c) (function_name c) content)"
      using t tagged [of t c] by (auto simp: execute_tool_invalid execute_tool_raises)
  qed
  from run each show ?thesis by blast
qed

theorem failed_invocations_get_error_results_witness:
  "conversation (run_conversation (sample_agent (Some three_calls)) [Dict ''user'' ''When can we meet?'']) =
     [Dict ''user'' ''When can we meet?'',
      Response \<lparr>content = None, tool_calls = Some three_calls\<rparr>,
      error_result (three_calls ! 0) (ValidationError ''Invalid JSON''),
      error_result (three_calls ! 1) (Exception ''handler failed''),
      Tool ''call_3'' ''parse_email'' ''{}'']
   \<and> returned (run_conversation (sample_agent (Some three_calls)) [Dict ''user'' ''When can we meet?'']) =
     Inr \<lparr>content = Some ''done'', tool_calls = None\<rparr>
   \<and> length (submissions (run_conversation (sample_agent (Some three_calls)) [Dict ''user'' ''When can we meet?''])) = 2"
proof -
  have first: "create (sample_agent (Some three_calls)) [Dict ''user'' ''When can we meet?'']
      (Some (get_tool_definitions (sample_agent (Some three_calls))))
      = Inr \<lparr>content = None, tool_calls = Some three_calls\<rparr>"
    by (simp add: sample_agent_def)
  have calls: "tool_calls \<lparr>content = None, tool_calls = Some three_calls\<rparr> = Some three_calls"
    by simp
  have nonempty: "three_calls \<noteq> []"
    by (simp add: three_calls_def)
  have registered: "\<forall>tc \<in> set three_calls.
      map_of (tools (sample_agent (Some three_calls))) (function_name tc) \<noteq> None"
    by (simp add: three_calls_def sample_agent_def)
  from failed_invocations_get_error_results [OF first calls nonempty registered]
  obtain results where run:
    "run_conversation (sample_agent (Some three_calls)) [Dict ''user'' ''When can we meet?''] =
       \<lparr>returned = create (sample_agent (Some three_calls))
          ([Dict ''user'' ''When can we meet?''] @ Response \<lparr>content = None, tool_calls = Some three_calls\<rparr> # results) None,
        conversation = [Dict ''user'' ''When can we meet?''] @ Response \<lparr>content = None, tool_calls = Some three_calls\<rparr> # results,
        submissions = [([Dict ''user'' ''When can we meet?''], Some (get_tool_definitions (sample_agent (Some three_calls)))),
                       ([Dict ''user'' ''When can we meet?''] @ Response \<lparr>content = None, tool_calls = Some three_calls\<rparr> # results, None)]\<rparr>"
    by blast
  have eval: "conversation (run_conversation (sample_agent (Some three_calls)) [Dict ''user'' ''When can we meet?'']) =
     [Dict ''user'' ''When can we meet?'',
      Response \<lparr>content = None, tool_calls = Some three_calls\<rparr>,
      error_result (three_calls ! 0) (ValidationError ''Invalid JSON''),
      error_result (three_calls ! 1) (Exception ''handler failed''),
      Tool ''call_3'' ''parse_email'' ''{}'']"
    by (simp add: run_conversation_def sample_agent_def get_tool_definitions_def execute_tool_def
        sample_tool_def three_calls_def call_shape_of_def)
  have "returned (run_conversation (sample_agent (Some three_calls)) [Dict ''user'' ''When can we meet?'']) =
     Inr \<lparr>content = Some ''done'', tool_calls = None\<rparr>"
    by (subst run) (simp add: sample_agent_def)
  moreover have "length (submissions (run_conversation (sample_agent (Some three_calls)) [Dict ''user'' ''When can we meet?''])) = 2"
    by (simp add: run)
  ultimately show ?thesis using eval by simp
qed

end
